theory Spec2Isabelle
  imports Main
begin

section \<open>Data model\<close>

text \<open>
  The value read at the \<open>id\<close> property of a tree node or of a parsed deletion record:
  a defined identifier, or \<open>undefined\<close> when the property is missing. The JavaScript
  \<open>Set\<close> and \<open>Map\<close> of the source compare keys by value, which is HOL equality here.
\<close>

datatype jsid = Undefined | Ident string

text \<open>
  A tree node (\<open>tree: any\<close> in the source). The merge reads \<open>id\<close> and \<open>children\<close>; every
  other own property is copied as it is by the spread \<open>{ ...newerNode }\<close> and is kept
  in \<open>props\<close>. A node without a \<open>children\<close> property has \<open>children = None\<close>.
\<close>

datatype 'f node = Node (nid: jsid) (props: 'f) (children: "'f node list option")

text \<open>\<open>interface MindmapData\<close>; \<open>tree\<close> may be \<open>null\<close>, \<open>deletedNodes\<close> may be missing.\<close>

record ('f, 'v) MindmapData =
  tree :: "'f node option"
  currentCenterId :: string
  viewOffset :: 'v
  deletedNodes :: "string list option"
  timestamp :: string

text \<open>
  What the merge takes from the JavaScript runtime:
  \<^item> \<open>JSON_parse_id r\<close> is \<open>JSON.parse(r).id\<close>: \<open>None\<close> when \<open>JSON.parse\<close> throws or the
    parsed value is \<open>null\<close> (the property read throws), \<open>Some Undefined\<close> when the parsed
    value has no \<open>id\<close>;
  \<^item> \<open>Date_getTime s\<close> is \<open>new Date(s).getTime()\<close>: milliseconds, or \<open>None\<close> for \<open>NaN\<close>;
  \<^item> \<open>Date_now\<close> is \<open>new Date().toISOString()\<close> at the time of the call.
\<close>

record runtime =
  JSON_parse_id :: "string \<Rightarrow> jsid option"
  Date_getTime :: "string \<Rightarrow> int option"
  Date_now :: string

section \<open>The tree merger\<close>

text \<open>\<open>node.children || []\<close>\<close>

definition kids :: "'f node \<Rightarrow> 'f node list" where
  "kids n = (case children n of None \<Rightarrow> [] | Some cs \<Rightarrow> cs)"

text \<open>\<open>Array.prototype.findIndex\<close>; \<open>None\<close> stands for \<open>-1\<close>.\<close>

fun findIndex :: "('a \<Rightarrow> bool) \<Rightarrow> 'a list \<Rightarrow> nat option" where
  "findIndex P [] = None"
| "findIndex P (x # xs) =
     (if P x then Some 0 else (case findIndex P xs of None \<Rightarrow> None | Some i \<Rightarrow> Some (Suc i)))"

text \<open>The \<open>Map\<close> built by \<open>newerChildren.forEach(child => newerChildMap.set(child.id, child))\<close>.\<close>

definition childMap :: "'f node list \<Rightarrow> (jsid \<rightharpoonup> 'f node)" where
  "childMap cs = fold (\<lambda>child m. m(nid child \<mapsto> child)) cs Map.empty"

lemma size_kids: "c \<in> set (kids n) \<Longrightarrow> size c < size n"
proof (cases n)
  case (Node i f cs)
  assume c: "c \<in> set (kids n)"
  then obtain ks where ks: "cs = Some ks" "c \<in> set ks"
    using Node by (cases cs) (auto simp: kids_def)
  have "size c \<le> size_list size ks"
    using ks(2) by (rule size_list_estimation') simp
  then show ?thesis
    using Node ks(1) by simp
qed

text \<open>
  \<open>mergeNodes\<close>. The loop over \<open>olderChildren\<close> is the \<open>fold\<close>, with \<open>mergedChildren\<close>
  as its state. No entry of \<open>mergedChildren\<close> is ever \<open>null\<close> (a merge result is written
  only under \<open>if (mergedChild)\<close>), so the closing \<open>filter(c => c !== null)\<close> keeps
  every entry.
\<close>

function mergeNodes :: "'f node option \<Rightarrow> 'f node option \<Rightarrow> jsid set \<Rightarrow> 'f node option" where
  "mergeNodes None olderNode deletedIds = olderNode"
| "mergeNodes (Some newerNode) None deletedIds = Some newerNode"
| "mergeNodes (Some newerNode) (Some olderNode) deletedIds =
     (if nid newerNode \<in> deletedIds then None
      else if nid olderNode \<in> deletedIds then None
      else
        let newerChildren = kids newerNode;
            olderChildren = kids olderNode;
            newerChildMap = childMap newerChildren;
            mergedChildren =
              fold (\<lambda>oldChild mergedChildren.
                      if nid oldChild \<in> deletedIds then mergedChildren
                      else if newerChildMap (nid oldChild) = None
                        then mergedChildren @ [oldChild]
                      else
                        (case mergeNodes (newerChildMap (nid oldChild)) (Some oldChild) deletedIds of
                           None \<Rightarrow> mergedChildren
                         | Some mergedChild \<Rightarrow>
                             (case findIndex (\<lambda>c. nid c = nid oldChild) mergedChildren of
                                None \<Rightarrow> mergedChildren
                              | Some index \<Rightarrow> mergedChildren[index := mergedChild])))
                   olderChildren newerChildren
        in Some (Node (nid newerNode) (props newerNode) (Some mergedChildren)))"
  by pat_completeness auto
termination
  by (relation "measure (\<lambda>(n, ol, D). case ol of None \<Rightarrow> 0 | Some t \<Rightarrow> size t)")
     (auto simp: size_kids)

text \<open>
  The body of the loop and the loop itself, named so that the proofs can speak about
  them; \<open>mergeNodes_both\<close> below shows that they are the ones of \<open>mergeNodes\<close>.
\<close>

definition merge_step ::
  "jsid set \<Rightarrow> (jsid \<rightharpoonup> 'f node) \<Rightarrow> 'f node \<Rightarrow> 'f node list \<Rightarrow> 'f node list" where
  "merge_step D newerChildMap oldChild mergedChildren =
     (if nid oldChild \<in> D then mergedChildren
      else if newerChildMap (nid oldChild) = None then mergedChildren @ [oldChild]
      else
        (case mergeNodes (newerChildMap (nid oldChild)) (Some oldChild) D of
           None \<Rightarrow> mergedChildren
         | Some mergedChild \<Rightarrow>
             (case findIndex (\<lambda>c. nid c = nid oldChild) mergedChildren of
                None \<Rightarrow> mergedChildren
              | Some index \<Rightarrow> mergedChildren[index := mergedChild])))"

definition merge_children :: "jsid set \<Rightarrow> 'f node list \<Rightarrow> 'f node list \<Rightarrow> 'f node list" where
  "merge_children D newerChildren olderChildren =
     fold (merge_step D (childMap newerChildren)) olderChildren newerChildren"

text \<open>
  What a newer child \<open>c\<close> has become once the older children have been processed
  (\<open>ros\<close> lists them latest first): the merge with the latest live older child of the
  same id, or \<open>c\<close> itself when there is none.
\<close>

definition merged_child :: "jsid set \<Rightarrow> 'f node list \<Rightarrow> 'f node \<Rightarrow> 'f node" where
  "merged_child D ros c =
     (case find (\<lambda>ol. nid ol = nid c \<and> nid ol \<notin> D) ros of
        None \<Rightarrow> c
      | Some ol \<Rightarrow> (case mergeNodes (Some c) (Some ol) D of None \<Rightarrow> c | Some m \<Rightarrow> m))"

section \<open>Notions the properties are stated with\<close>

text \<open>The ids that occur in a tree.\<close>

function node_ids :: "'f node \<Rightarrow> jsid set" where
  "node_ids n = insert (nid n) (\<Union> (set (map node_ids (kids n))))"
  by pat_completeness auto
termination
  by (relation "measure size") (auto simp: size_kids)

text \<open>No two children of one node share an id, anywhere in the tree.\<close>

function wf_node :: "'f node \<Rightarrow> bool" where
  "wf_node n = (distinct (map nid (kids n)) \<and> list_all wf_node (kids n))"
  by pat_completeness auto
termination
  by (relation "measure size") (auto simp: size_kids)

text \<open>Every node of the tree carries a \<open>children\<close> array.\<close>

function children_present :: "'f node \<Rightarrow> bool" where
  "children_present n = (children n \<noteq> None \<and> list_all children_present (kids n))"
  by pat_completeness auto
termination
  by (relation "measure size") (auto simp: size_kids)

text \<open>Every node of the tree has an \<open>id\<close>.\<close>

function ids_defined :: "'f node \<Rightarrow> bool" where
  "ids_defined n = (nid n \<noteq> Undefined \<and> list_all ids_defined (kids n))"
  by pat_completeness auto
termination
  by (relation "measure size") (auto simp: size_kids)

definition tree_ids_defined :: "'f node option \<Rightarrow> bool" where
  "tree_ids_defined t = (case t of None \<Rightarrow> True | Some n \<Rightarrow> ids_defined n)"

text \<open>The node reached from \<open>n\<close> by a path of child ids.\<close>

fun node_at :: "'f node \<Rightarrow> jsid list \<Rightarrow> 'f node option" where
  "node_at n [] = Some n"
| "node_at n (i # p) =
     (case find (\<lambda>c. nid c = i) (kids n) of None \<Rightarrow> None | Some c \<Rightarrow> node_at c p)"

section \<open>The reconciler\<close>

text \<open>
  A JavaScript \<open>Set\<close> of strings keeps its members in insertion order without
  duplicates: \<open>set_add\<close> is \<open>Set.prototype.add\<close>, \<open>new_Set\<close> is \<open>new Set(iterable)\<close>, and
  the list itself is what spreading the set or \<open>Array.from\<close> yields.
\<close>

definition set_add :: "'a \<Rightarrow> 'a list \<Rightarrow> 'a list" where
  "set_add x xs = (if x \<in> set xs then xs else xs @ [x])"

definition new_Set :: "'a list \<Rightarrow> 'a list" where
  "new_Set xs = fold set_add xs []"

text \<open>\<open>data.deletedNodes || []\<close>\<close>

definition deletedNodes_or_empty :: "('f, 'v) MindmapData \<Rightarrow> string list" where
  "deletedNodes_or_empty d = (case deletedNodes d of None \<Rightarrow> [] | Some rs \<Rightarrow> rs)"

text \<open>
  The loop that parses the deletion records: a record whose parse throws is skipped by
  the \<open>catch\<close>; otherwise \<open>parsed.id\<close> is added, also when it is \<open>undefined\<close>.
\<close>

definition parseDeletedIds :: "runtime \<Rightarrow> string list \<Rightarrow> jsid set" where
  "parseDeletedIds rt allDeletedNodes =
     fold (\<lambda>record deletedIds.
             case JSON_parse_id rt record of
               None \<Rightarrow> deletedIds
             | Some parsed_id \<Rightarrow> insert parsed_id deletedIds)
          allDeletedNodes {}"

text \<open>\<open>a > b\<close> on the results of \<open>getTime()\<close>: false as soon as one side is \<open>NaN\<close>.\<close>

fun js_gt :: "int option \<Rightarrow> int option \<Rightarrow> bool" where
  "js_gt (Some a) (Some b) = (a > b)"
| "js_gt _ _ = False"

text \<open>
  The bindings of \<open>mergeMindmapData\<close>, under the names the source gives them:
  the union of the two record sets, the ids parsed from it, and the choice of the newer
  and the older snapshot (\<open>localTime > cloudTime ? localData : cloudData\<close>).
\<close>

definition allDeletedNodes :: "('f, 'v) MindmapData \<Rightarrow> ('f, 'v) MindmapData \<Rightarrow> string list" where
  "allDeletedNodes cloudData localData =
     (let cloudDeletedNodes = new_Set (deletedNodes_or_empty cloudData);
          localDeletedNodes = new_Set (deletedNodes_or_empty localData)
      in new_Set (cloudDeletedNodes @ localDeletedNodes))"

definition deletedIds :: "runtime \<Rightarrow> ('f, 'v) MindmapData \<Rightarrow> ('f, 'v) MindmapData \<Rightarrow> jsid set" where
  "deletedIds rt cloudData localData = parseDeletedIds rt (allDeletedNodes cloudData localData)"

definition local_is_newer :: "runtime \<Rightarrow> ('f, 'v) MindmapData \<Rightarrow> ('f, 'v) MindmapData \<Rightarrow> bool" where
  "local_is_newer rt cloudData localData =
     (let cloudTime = Date_getTime rt (timestamp cloudData);
          localTime = Date_getTime rt (timestamp localData)
      in js_gt localTime cloudTime)"

definition newerData ::
  "runtime \<Rightarrow> ('f, 'v) MindmapData \<Rightarrow> ('f, 'v) MindmapData \<Rightarrow> ('f, 'v) MindmapData" where
  "newerData rt cloudData localData =
     (if local_is_newer rt cloudData localData then localData else cloudData)"

definition olderData ::
  "runtime \<Rightarrow> ('f, 'v) MindmapData \<Rightarrow> ('f, 'v) MindmapData \<Rightarrow> ('f, 'v) MindmapData" where
  "olderData rt cloudData localData =
     (if local_is_newer rt cloudData localData then cloudData else localData)"

definition mergeMindmapData ::
  "runtime \<Rightarrow> ('f, 'v) MindmapData \<Rightarrow> ('f, 'v) MindmapData \<Rightarrow> ('f, 'v) MindmapData" where
  "mergeMindmapData rt cloudData localData =
     (let mergedTree = mergeNodes (tree (newerData rt cloudData localData))
                                  (tree (olderData rt cloudData localData))
                                  (deletedIds rt cloudData localData)
      in \<lparr>tree = mergedTree,
          currentCenterId = currentCenterId (newerData rt cloudData localData),
          viewOffset = viewOffset (newerData rt cloudData localData),
          deletedNodes = Some (allDeletedNodes cloudData localData),
          timestamp = Date_now rt\<rparr>)"

text \<open>
  A deletion record from which an id is recovered, and a snapshot without the records
  from which none is (the parse throws, or the parsed value has no \<open>id\<close>).
\<close>

definition has_id :: "runtime \<Rightarrow> string \<Rightarrow> bool" where
  "has_id rt r =
     (case JSON_parse_id rt r of None \<Rightarrow> False | Some Undefined \<Rightarrow> False | Some (Ident k) \<Rightarrow> True)"

definition without_malformed :: "runtime \<Rightarrow> ('f, 'v) MindmapData \<Rightarrow> ('f, 'v) MindmapData" where
  "without_malformed rt d = d\<lparr>deletedNodes := Some (filter (has_id rt) (deletedNodes_or_empty d))\<rparr>"

section \<open>The sync endpoint\<close>

text \<open>
  A request to \<open>/api/sync\<close>: its method (\<open>req.method\<close>) and the outcome of reading the body, which is
  \<open>Inl e\<close> when \<open>await req.json()\<close> or the read of \<open>body.localData\<close> throws (\<open>e\<close> is
  \<open>String(error)\<close>), and \<open>Inr localData\<close> otherwise, with \<open>None\<close> for a \<open>localData\<close> that
  is \<open>null\<close> or missing.
\<close>

record ('f, 'v) request =
  http_method :: string
  json :: "string + ('f, 'v) MindmapData option"

text \<open>
  The JSON body of the response with its status (200 when the source gives none).
  The store is the KV namespace \<open>MINDMAP_KV\<close>, a map from keys to the values stored
  under them; its own faults are not part of the model.
\<close>

record ('f, 'v) response =
  status :: nat
  success :: bool
  error :: "string option"
  data :: "('f, 'v) MindmapData option"

type_synonym ('f, 'v) kv = "string \<rightharpoonup> ('f, 'v) MindmapData"

definition handleSync ::
  "runtime \<Rightarrow> ('f, 'v) request \<Rightarrow> ('f, 'v) kv \<Rightarrow> ('f, 'v) response \<times> ('f, 'v) kv" where
  "handleSync rt req kv =
     (if http_method req = ''GET'' then
        (\<lparr>status = 200, success = True, error = None, data = kv ''mindmap_data''\<rparr>, kv)
      else if http_method req = ''POST'' then
        (case json req of
           Inl e \<Rightarrow> (\<lparr>status = 500, success = False, error = Some e, data = None\<rparr>, kv)
         | Inr localData \<Rightarrow>
             (let cloudData = kv ''mindmap_data'';
                  save = (\<lambda>mergedData.
                            (\<lparr>status = 200, success = True, error = None, data = Some mergedData\<rparr>,
                             kv(''mindmap_data'' \<mapsto> mergedData)))
              in if cloudData = None \<and> localData \<noteq> None then save (the localData)
                 else if cloudData \<noteq> None \<and> localData = None then save (the cloudData)
                 else if cloudData \<noteq> None \<and> localData \<noteq> None
                   then save (mergeMindmapData rt (the cloudData) (the localData))
                 else (\<lparr>status = 400, success = False, error = Some ''No data provided'',
                        data = None\<rparr>, kv)))
      else
        (\<lparr>status = 405, success = False, error = Some ''Method not allowed'', data = None\<rparr>, kv))"

section \<open>Example inputs\<close>

text \<open>
  A runtime for the examples: it parses the deletion records that the examples use (any
  other string makes \<open>JSON.parse\<close> throw) and reads two timestamps one day apart.
\<close>

definition demo_runtime :: runtime where
  \<open>demo_runtime =
     \<lparr>JSON_parse_id =
        (\<lambda>r. if r = ''{"id":"K"}'' then Some (Ident ''K'')
             else if r = ''{"id":"root"}'' then Some (Ident ''root'')
             else if r = ''{}'' then Some Undefined
             else None),
      Date_getTime =
        (\<lambda>s. if s = ''2024-01-01T00:00:00.000Z'' then Some 1704067200000
             else if s = ''2024-01-02T00:00:00.000Z'' then Some 1704153600000
             else None),
      Date_now = ''2024-01-03T00:00:00.000Z''\<rparr>\<close>

text \<open>A node labelled by a string, and a snapshot whose root has the id \<open>root\<close>.\<close>

definition leaf :: "string \<Rightarrow> string \<Rightarrow> string node" where
  "leaf i label = Node (Ident i) label (Some [])"

definition branch :: "string \<Rightarrow> string \<Rightarrow> string node list \<Rightarrow> string node" where
  "branch i label cs = Node (Ident i) label (Some cs)"

definition snapshot ::
  "string node list \<Rightarrow> string list \<Rightarrow> string \<Rightarrow> string \<Rightarrow> (string, int \<times> int) MindmapData" where
  "snapshot cs records focus ts =
     \<lparr>tree = Some (branch ''root'' ''Root'' cs),
      currentCenterId = focus,
      viewOffset = (0, 0),
      deletedNodes = Some records,
      timestamp = ts\<rparr>"

section \<open>The children loop\<close>

lemma fold_set_None:
  "fold (\<lambda>child m. m(nid child \<mapsto> child)) cs m0 i = None \<longleftrightarrow> m0 i = None \<and> i \<notin> nid ` set cs"
  by (induction cs arbitrary: m0) auto

lemma fold_set_Some:
  "fold (\<lambda>child m. m(nid child \<mapsto> child)) cs m0 i = Some c \<Longrightarrow>
     m0 i = Some c \<or> (c \<in> set cs \<and> nid c = i)"
proof (induction cs arbitrary: m0)
  case Nil
  then show ?case by simp
next
  case (Cons a cs)
  from Cons.IH[of "m0(nid a \<mapsto> a)"] Cons.prems show ?case
    by (auto split: if_splits)
qed

lemma childMap_None: "childMap cs i = None \<longleftrightarrow> i \<notin> nid ` set cs"
  by (simp add: childMap_def fold_set_None)

lemma childMap_Some: "childMap cs i = Some c \<Longrightarrow> c \<in> set cs \<and> nid c = i"
  using fold_set_Some[of cs Map.empty i c] by (simp add: childMap_def)

lemma childMap_distinct:
  assumes "distinct (map nid cs)" "c \<in> set cs"
  shows "childMap cs (nid c) = Some c"
proof -
  from assms(2) have "childMap cs (nid c) \<noteq> None"
    by (simp add: childMap_None)
  then obtain c' where c': "childMap cs (nid c) = Some c'" by auto
  from childMap_Some[OF c'] have "c' \<in> set cs" "nid c' = nid c" by auto
  with assms have "c' = c"
    by (meson distinct_map inj_onD)
  with c' show ?thesis by simp
qed

lemma mergeNodes_both:
  "mergeNodes (Some n) (Some ol) D =
     (if nid n \<in> D \<or> nid ol \<in> D then None
      else Some (Node (nid n) (props n) (Some (merge_children D (kids n) (kids ol)))))"
proof -
  have "(\<lambda>oldChild mergedChildren.
           if nid oldChild \<in> D then mergedChildren
           else if childMap (kids n) (nid oldChild) = None then mergedChildren @ [oldChild]
           else (case mergeNodes (childMap (kids n) (nid oldChild)) (Some oldChild) D of
                   None \<Rightarrow> mergedChildren
                 | Some mergedChild \<Rightarrow>
                     (case findIndex (\<lambda>c. nid c = nid oldChild) mergedChildren of
                        None \<Rightarrow> mergedChildren
                      | Some index \<Rightarrow> mergedChildren[index := mergedChild])))
        = merge_step D (childMap (kids n))"
    by (intro ext) (simp add: merge_step_def)
  then show ?thesis
    by (simp add: merge_children_def Let_def)
qed

declare mergeNodes.simps(3) [simp del]

lemma mergeNodes_Some_nid_props:
  "mergeNodes (Some n) ol D = Some m \<Longrightarrow> nid m = nid n \<and> props m = props n"
  by (cases ol) (auto simp: mergeNodes_both split: if_splits)

lemma mergeNodes_live:
  "nid n \<notin> D \<Longrightarrow> nid ol \<notin> D \<Longrightarrow> \<exists>m. mergeNodes (Some n) (Some ol) D = Some m"
  by (simp add: mergeNodes_both)

lemma nid_merged_child: "nid (merged_child D ros c) = nid c"
  by (auto simp: merged_child_def dest: mergeNodes_Some_nid_props split: option.splits)

lemma findIndex_Some: "findIndex P xs = Some i \<Longrightarrow> i < length xs \<and> P (xs ! i) \<and> (\<forall>j<i. \<not> P (xs ! j))"
proof (induction xs arbitrary: i)
  case Nil then show ?case by simp
next
  case (Cons x xs)
  show ?case
  proof (cases "P x")
    case True with Cons.prems show ?thesis by simp
  next
    case False
    with Cons.prems obtain k where k: "findIndex P xs = Some k" "i = Suc k"
      by (auto split: option.splits)
    from Cons.IH[OF k(1)] False k(2) show ?thesis
      by (auto simp: less_Suc_eq_0_disj)
  qed
qed

lemma findIndex_None: "findIndex P xs = None \<longleftrightarrow> (\<forall>x\<in>set xs. \<not> P x)"
  by (induction xs) (auto split: option.splits)

lemma findIndex_distinct:
  assumes "distinct (map f xs)" "k < length xs"
  shows "findIndex (\<lambda>x. f x = f (xs ! k)) (xs @ ys) = Some k"
proof -
  have "\<exists>x\<in>set (xs @ ys). f x = f (xs ! k)" using assms(2) by auto
  then obtain i where i: "findIndex (\<lambda>x. f x = f (xs ! k)) (xs @ ys) = Some i"
    by (cases "findIndex (\<lambda>x. f x = f (xs ! k)) (xs @ ys)") (auto simp: findIndex_None)
  from findIndex_Some[OF i] have "\<forall>j<i. f ((xs @ ys) ! j) \<noteq> f (xs ! k)" 
     and fi: "f ((xs @ ys) ! i) = f (xs ! k)" by auto
  then have "\<not> k < i" using assms(2) by (auto simp: nth_append)
  then have "i \<le> k" by simp
  then have "i < length xs" using assms(2) by simp
  with fi have "map f xs ! i = map f xs ! k" using assms(2) by (simp add: nth_append)
  with assms \<open>i < length xs\<close> have "i = k"
    using nth_eq_iff_index_eq[of "map f xs" i k] by simp
  with i show ?thesis by simp
qed

lemma merge_children_snoc:
  "merge_children D ns (os @ [ol]) = merge_step D (childMap ns) ol (merge_children D ns os)"
  by (simp add: merge_children_def)

lemma merged_child_skip:
  "nid ol \<in> D \<or> nid ol \<noteq> nid c \<Longrightarrow> merged_child D (ol # ros) c = merged_child D ros c"
  by (auto simp: merged_child_def)

lemma merged_child_hit:
  "nid ol \<notin> D \<Longrightarrow> nid ol = nid c \<Longrightarrow> mergeNodes (Some c) (Some ol) D = Some m \<Longrightarrow>
     merged_child D (ol # ros) c = m"
  by (simp add: merged_child_def)

lemma merge_children_char:
  assumes dist: "distinct (map nid ns)"
  shows "merge_children D ns os =
           map (merged_child D (rev os)) ns @
           filter (\<lambda>ol. nid ol \<notin> D \<and> nid ol \<notin> nid ` set ns) os"
proof (induction os rule: rev_induct)
  case Nil
  show ?case by (simp add: merge_children_def merged_child_def)
next
  case (snoc ol os)
  let ?g = "merged_child D (rev os)"
  let ?g' = "merged_child D (ol # rev os)"
  let ?ap = "filter (\<lambda>ol. nid ol \<notin> D \<and> nid ol \<notin> nid ` set ns) os"
  have st: "merge_children D ns (os @ [ol]) = merge_step D (childMap ns) ol (map ?g ns @ ?ap)"
    by (simp add: merge_children_snoc snoc.IH)
  consider (deleted) "nid ol \<in> D"
    | (fresh) "nid ol \<notin> D" "nid ol \<notin> nid ` set ns"
    | (matched) "nid ol \<notin> D" "nid ol \<in> nid ` set ns"
    by blast
  then show ?case
  proof cases
    case deleted
    then have "map ?g' ns = map ?g ns"
      by (simp add: merged_child_skip)
    with deleted show ?thesis
      by (simp add: st merge_step_def)
  next
    case fresh
    then have "map ?g' ns = map ?g ns"
      by (intro map_cong refl merged_child_skip) auto
    moreover have "childMap ns (nid ol) = None"
      using fresh(2) by (simp add: childMap_None)
    ultimately show ?thesis
      using fresh by (simp add: st merge_step_def)
  next
    case matched
    then obtain k where k: "k < length ns" "nid (ns ! k) = nid ol"
      by (auto simp: in_set_conv_nth)
    let ?c = "ns ! k"
    have cm: "childMap ns (nid ol) = Some ?c"
      using childMap_distinct[OF dist, of ?c] k by simp
    obtain m where m: "mergeNodes (Some ?c) (Some ol) D = Some m"
      using mergeNodes_live[of ?c D ol] matched(1) k(2) by auto
    have dist': "distinct (map nid (map ?g ns))"
      using dist by (simp add: nid_merged_child comp_def)
    have "findIndex (\<lambda>x. nid x = nid (map ?g ns ! k)) (map ?g ns @ ?ap) = Some k"
      by (rule findIndex_distinct[OF dist']) (simp add: k(1))
    then have fi: "findIndex (\<lambda>x. nid x = nid ol) (map ?g ns @ ?ap) = Some k"
      using k by (simp add: nid_merged_child)
    have step: "merge_step D (childMap ns) ol (map ?g ns @ ?ap) = (map ?g ns)[k := m] @ ?ap"
      using matched(1) cm m fi k(1) by (simp add: merge_step_def list_update_append1)
    have "(map ?g ns)[k := m] = map ?g' ns"
    proof (rule nth_equalityI)
      show "length ((map ?g ns)[k := m]) = length (map ?g' ns)" by simp
    next
      fix j assume "j < length ((map ?g ns)[k := m])"
      then have j: "j < length ns" by simp
      show "(map ?g ns)[k := m] ! j = map ?g' ns ! j"
      proof (cases "j = k")
        case True
        then show ?thesis
          using k matched(1) m by (simp add: merged_child_hit)
      next
        case False
        then have "nid (ns ! j) \<noteq> nid (ns ! k)"
          using dist j k(1) nth_eq_iff_index_eq[of "map nid ns" j k] by simp
        then have "?g' (ns ! j) = ?g (ns ! j)"
          using k(2) by (simp add: merged_child_skip)
        then show ?thesis
          using False j by simp
      qed
    qed
    moreover have "filter (\<lambda>ol. nid ol \<notin> D \<and> nid ol \<notin> nid ` set ns) (os @ [ol]) = ?ap"
      using matched(2) by simp
    ultimately show ?thesis
      using st step by simp
  qed
qed

section \<open>Trees\<close>

declare node_ids.simps [simp del] wf_node.simps [simp del] children_present.simps [simp del]

lemma kids_induct [case_names node]:
  assumes "\<And>n. (\<And>c. c \<in> set (kids n) \<Longrightarrow> P c) \<Longrightarrow> P n"
  shows "P n"
proof (induction n rule: measure_induct_rule[of size])
  case (less n)
  show ?case by (rule assms) (simp add: less size_kids)
qed

lemma wf_node_kids: "wf_node n \<Longrightarrow> distinct (map nid (kids n))"
  and wf_node_child: "wf_node n \<Longrightarrow> c \<in> set (kids n) \<Longrightarrow> wf_node c"
  by (subst (asm) wf_node.simps, simp add: list_all_iff)+

lemma find_SomeD: "find P xs = Some x \<Longrightarrow> x \<in> set xs \<and> P x"
  by (induction xs) (auto split: if_splits)

lemma find_distinct:
  assumes "distinct (map f xs)" "x \<in> set xs" "P x" "\<And>y. y \<in> set xs \<Longrightarrow> P y \<Longrightarrow> f y = f x"
  shows "find P xs = Some x"
proof -
  from assms(2,3) have "find P xs \<noteq> None" by (auto simp: find_None_iff)
  then obtain y where y: "find P xs = Some y" by auto
  from find_SomeD[OF y] assms(4) have "y \<in> set xs" "f y = f x" by auto
  with assms(1,2) have "y = x" by (meson distinct_map inj_onD)
  with y show ?thesis by simp
qed

lemma merged_child_cases:
  "merged_child D ros c = c \<or>
   (\<exists>ol\<in>set ros. nid ol = nid c \<and> nid ol \<notin> D \<and>
       mergeNodes (Some c) (Some ol) D = Some (merged_child D ros c))"
proof (cases "find (\<lambda>ol. nid ol = nid c \<and> nid ol \<notin> D) ros")
  case None
  then show ?thesis by (simp add: merged_child_def)
next
  case (Some ol)
  from find_SomeD[OF Some] have ol: "ol \<in> set ros" "nid ol = nid c" "nid ol \<notin> D" by auto
  then obtain m where m: "mergeNodes (Some c) (Some ol) D = Some m"
    using mergeNodes_live[of c D ol] by auto
  then have "merged_child D ros c = m" by (simp add: merged_child_def Some)
  with ol m show ?thesis by auto
qed

lemma merged_child_is_merge:
  "\<exists>oo. mergeNodes (Some c) oo D = Some (merged_child D ros c) \<and>
        (oo = None \<or> (\<exists>ol\<in>set ros. oo = Some ol \<and> nid ol = nid c \<and> nid ol \<notin> D))"
  using merged_child_cases[of D ros c]
proof
  assume "merged_child D ros c = c"
  then have "mergeNodes (Some c) None D = Some (merged_child D ros c)" by simp
  then show ?thesis by blast
next
  assume "\<exists>ol\<in>set ros. nid ol = nid c \<and> nid ol \<notin> D \<and>
       mergeNodes (Some c) (Some ol) D = Some (merged_child D ros c)"
  then show ?thesis by blast
qed

lemma kids_Node: "kids (Node i f (Some cs)) = cs"
  by (simp add: kids_def)

lemma mergeNodes_kids:
  assumes "mergeNodes (Some n) (Some ol) D = Some m" "wf_node n"
  shows "kids m = map (merged_child D (rev (kids ol))) (kids n) @
           filter (\<lambda>x. nid x \<notin> D \<and> nid x \<notin> nid ` set (kids n)) (kids ol)"
  using assms
  by (auto simp: mergeNodes_both kids_Node merge_children_char[OF wf_node_kids] split: if_splits)

lemma find_map_nid:
  assumes "\<And>c. nid (g c) = nid c"
  shows "find (\<lambda>x. nid x = i) (map g ns @ ap) =
           (case find (\<lambda>c. nid c = i) ns of None \<Rightarrow> find (\<lambda>x. nid x = i) ap | Some c \<Rightarrow> Some (g c))"
  by (induction ns) (auto simp: assms)

lemma newer_preserved:
  "wf_node n \<Longrightarrow> mergeNodes (Some n) oo D = Some m \<Longrightarrow> node_at n p = Some n' \<Longrightarrow>
     \<exists>m'. node_at m p = Some m' \<and> nid m' = nid n' \<and> props m' = props n'"
proof (induction p arbitrary: n oo m)
  case Nil
  then show ?case using mergeNodes_Some_nid_props[of n oo D m] by simp
next
  case (Cons i p)
  from Cons.prems(3) obtain c where c: "find (\<lambda>c. nid c = i) (kids n) = Some c" "node_at c p = Some n'"
    by (auto split: option.splits)
  from find_SomeD[OF c(1)] have cin: "c \<in> set (kids n)" by simp
  show ?case
  proof (cases oo)
    case None
    with Cons.prems have "m = n" by simp
    with Cons.prems(3) show ?thesis by auto
  next
    case (Some ol)
    let ?g = "merged_child D (rev (kids ol))"
    from mergeNodes_kids[OF Cons.prems(2)[unfolded Some] Cons.prems(1)]
    have "find (\<lambda>x. nid x = i) (kids m) = Some (?g c)"
      by (simp add: find_map_nid[of ?g, OF nid_merged_child] c(1))
    then have at: "node_at m (i # p) = node_at (?g c) p" by simp
    obtain oo' where "mergeNodes (Some c) oo' D = Some (?g c)"
      using merged_child_is_merge[of c D "rev (kids ol)"] by blast
    from Cons.IH[OF wf_node_child[OF Cons.prems(1) cin] this c(2)] at
    show ?thesis by simp
  qed
qed

lemma children_present_kids:
  "children_present n \<Longrightarrow> children n = Some (kids n)"
  and children_present_child: "children_present n \<Longrightarrow> c \<in> set (kids n) \<Longrightarrow> children_present c"
  by (subst (asm) children_present.simps, auto simp: list_all_iff kids_def)+

lemma mergeNodes_self:
  "wf_node t \<Longrightarrow> children_present t \<Longrightarrow> nid t \<notin> D \<Longrightarrow> mergeNodes (Some t) (Some t) D = Some t"
proof (induction t rule: kids_induct)
  case (node t)
  let ?ns = "kids t"
  have dist: "distinct (map nid ?ns)" using node.prems(1) by (rule wf_node_kids)
  have same: "merged_child D (rev ?ns) c = c" if c: "c \<in> set ?ns" for c
  proof (cases "nid c \<in> D")
    case True
    then have "find (\<lambda>ol. nid ol = nid c \<and> nid ol \<notin> D) (rev ?ns) = None"
      by (auto simp: find_None_iff)
    then show ?thesis by (simp add: merged_child_def)
  next
    case False
    have "distinct (map nid (rev ?ns))" using dist by (simp add: rev_map[symmetric])
    then have "find (\<lambda>ol. nid ol = nid c \<and> nid ol \<notin> D) (rev ?ns) = Some c"
      by (rule find_distinct) (use c False in auto)
    moreover have "mergeNodes (Some c) (Some c) D = Some c"
      using node.IH[OF c] wf_node_child[OF node.prems(1) c]
        children_present_child[OF node.prems(2) c] False by simp
    ultimately show ?thesis by (simp add: merged_child_def)
  qed
  have "map (merged_child D (rev ?ns)) ?ns = ?ns"
    using same by (simp add: map_idI)
  moreover have "filter (\<lambda>x. nid x \<notin> D \<and> nid x \<notin> nid ` set ?ns) ?ns = []"
    by (auto simp: filter_empty_conv)
  ultimately have "merge_children D ?ns ?ns = ?ns"
    by (simp add: merge_children_char[OF dist])
  then have "mergeNodes (Some t) (Some t) D = Some (Node (nid t) (props t) (children t))"
    using node.prems(3) children_present_kids[OF node.prems(2)] by (simp add: mergeNodes_both)
  then show ?case by simp
qed

lemma node_ids_eq: "node_ids n = insert (nid n) (\<Union>c\<in>set (kids n). node_ids c)"
  by (subst node_ids.simps) simp

lemma node_ids_self: "nid n \<in> node_ids n"
  by (subst node_ids_eq) simp

lemma node_ids_child: "c \<in> set (kids n) \<Longrightarrow> node_ids c \<subseteq> node_ids n"
  by (subst node_ids_eq) auto

lemma node_ids_subsetI:
  "nid n \<in> S \<Longrightarrow> (\<And>c. c \<in> set (kids n) \<Longrightarrow> node_ids c \<subseteq> S) \<Longrightarrow> node_ids n \<subseteq> S"
  by (subst node_ids_eq) auto

lemma newer_ids_kept:
  "wf_node n \<Longrightarrow> mergeNodes (Some n) oo D = Some m \<Longrightarrow> node_ids n \<subseteq> node_ids m"
proof (induction n arbitrary: oo m rule: kids_induct)
  case (node n)
  show ?case
  proof (cases oo)
    case None
    with node.prems show ?thesis by simp
  next
    case (Some ol)
    let ?g = "merged_child D (rev (kids ol))"
    have km: "kids m = map ?g (kids n) @
           filter (\<lambda>x. nid x \<notin> D \<and> nid x \<notin> nid ` set (kids n)) (kids ol)"
      using node.prems Some by (simp add: mergeNodes_kids)
    have "node_ids c \<subseteq> node_ids m" if c: "c \<in> set (kids n)" for c
    proof -
      obtain oo' where "mergeNodes (Some c) oo' D = Some (?g c)"
        using merged_child_is_merge[of c D "rev (kids ol)"] by blast
      from node.IH[OF c wf_node_child[OF node.prems(1) c] this]
      have "node_ids c \<subseteq> node_ids (?g c)" .
      moreover have "?g c \<in> set (kids m)" using c km by simp
      ultimately show ?thesis using node_ids_child[of "?g c" m] by blast
    qed
    moreover have "nid n \<in> node_ids m"
      using mergeNodes_Some_nid_props[OF node.prems(2)] node_ids_self[of m] by simp
    ultimately show ?thesis
      by (rule node_ids_subsetI[rotated])
  qed
qed

lemma merged_ids_bound:
  "wf_node n \<Longrightarrow> mergeNodes (Some n) (Some ol) D = Some m \<Longrightarrow> node_ids m \<subseteq> node_ids n \<union> node_ids ol"
proof (induction n arbitrary: ol m rule: kids_induct)
  case (node n)
  let ?g = "merged_child D (rev (kids ol))"
  have km: "kids m = map ?g (kids n) @
         filter (\<lambda>x. nid x \<notin> D \<and> nid x \<notin> nid ` set (kids n)) (kids ol)"
    using node.prems by (simp add: mergeNodes_kids)
  have a: "node_ids (?g c) \<subseteq> node_ids n \<union> node_ids ol" if c: "c \<in> set (kids n)" for c
    using merged_child_cases[of D "rev (kids ol)" c]
  proof
    assume "?g c = c"
    then show ?thesis using node_ids_child[OF c] by auto
  next
    assume "\<exists>x\<in>set (rev (kids ol)). nid x = nid c \<and> nid x \<notin> D \<and>
       mergeNodes (Some c) (Some x) D = Some (?g c)"
    then obtain x where x: "x \<in> set (kids ol)" "mergeNodes (Some c) (Some x) D = Some (?g c)"
      by auto
    from node.IH[OF c wf_node_child[OF node.prems(1) c] x(2)]
    have "node_ids (?g c) \<subseteq> node_ids c \<union> node_ids x" .
    then show ?thesis using node_ids_child[OF c] node_ids_child[OF x(1)] by blast
  qed
  have "node_ids c \<subseteq> node_ids n \<union> node_ids ol" if "c \<in> set (kids m)" for c
  proof -
    from that km consider g where "g \<in> set (kids n)" "c = ?g g" | "c \<in> set (kids ol)"
      by auto
    then show ?thesis
    proof cases
      case 1 then show ?thesis using a by simp
    next
      case 2 then show ?thesis using node_ids_child[of c ol] by blast
    qed
  qed
  moreover have "nid m \<in> node_ids n \<union> node_ids ol"
    using mergeNodes_Some_nid_props[OF node.prems(2)] node_ids_self[of n] by simp
  ultimately show ?case
    by (rule node_ids_subsetI[rotated])
qed

section \<open>The reconciler: deletion records and timestamps\<close>

lemma set_fold_set_add: "set (fold set_add xs acc) = set xs \<union> set acc"
  by (induction xs arbitrary: acc) (auto simp: set_add_def)

lemma distinct_fold_set_add: "distinct acc \<Longrightarrow> distinct (fold set_add xs acc)"
  by (induction xs arbitrary: acc) (auto simp: set_add_def)

lemma set_new_Set: "set (new_Set xs) = set xs"
  by (simp add: new_Set_def set_fold_set_add)

lemma distinct_new_Set: "distinct (new_Set xs)"
  by (simp add: new_Set_def distinct_fold_set_add)

lemma set_allDeletedNodes:
  "set (allDeletedNodes cloud local) =
     set (deletedNodes_or_empty cloud) \<union> set (deletedNodes_or_empty local)"
  by (simp add: allDeletedNodes_def set_new_Set)

lemma distinct_allDeletedNodes: "distinct (allDeletedNodes cloud local)"
  by (simp add: allDeletedNodes_def distinct_new_Set)

lemma fold_parse:
  "fold (\<lambda>record deletedIds. case JSON_parse_id rt record of None \<Rightarrow> deletedIds
            | Some parsed_id \<Rightarrow> insert parsed_id deletedIds) rs acc
     = acc \<union> {i. \<exists>r\<in>set rs. JSON_parse_id rt r = Some i}"
  by (induction rs arbitrary: acc) (auto split: option.splits)

lemma parseDeletedIds_eq:
  "parseDeletedIds rt rs = {i. \<exists>r\<in>set rs. JSON_parse_id rt r = Some i}"
  by (simp add: parseDeletedIds_def fold_parse)

lemma js_gt_irrefl: "\<not> js_gt x x"
  by (cases x) simp_all

lemma demo_times:
  "Date_getTime demo_runtime ''2024-01-01T00:00:00.000Z'' = Some 1704067200000"
  "Date_getTime demo_runtime ''2024-01-02T00:00:00.000Z'' = Some 1704153600000"
  by (simp_all add: demo_runtime_def)

section \<open>Additions and matched paths\<close>

lemma merge_step_keeps:
  assumes z: "z \<in> set mc" and ok: "nid ol \<in> D \<or> ncm (nid ol) = None \<or> nid ol \<noteq> nid z"
  shows "z \<in> set (merge_step D ncm ol mc)"
proof (cases "nid ol \<in> D \<or> ncm (nid ol) = None")
  case True
  with z show ?thesis by (auto simp: merge_step_def)
next
  case False
  with ok have ne: "nid ol \<noteq> nid z" by blast
  have upd: "z \<in> set (mc[i := m])" if i: "findIndex (\<lambda>c. nid c = nid ol) mc = Some i" for i m
  proof -
    from findIndex_Some[OF i] have "nid (mc ! i) = nid ol" by simp
    moreover from z obtain j where j: "j < length mc" "mc ! j = z"
      by (auto simp: in_set_conv_nth)
    ultimately have "j \<noteq> i" using ne by auto
    with j have "mc[i := m] ! j = z" "j < length (mc[i := m])" by simp_all
    then show ?thesis by (metis nth_mem)
  qed
  show ?thesis
    using False z upd by (auto simp: merge_step_def split: option.splits)
qed

lemma fold_merge_step_keeps:
  "z \<in> set mc \<Longrightarrow> (\<And>ol. ol \<in> set os \<Longrightarrow> nid ol \<in> D \<or> ncm (nid ol) = None \<or> nid ol \<noteq> nid z) \<Longrightarrow>
     z \<in> set (fold (merge_step D ncm) os mc)"
proof (induction os arbitrary: mc)
  case Nil
  then show ?case by simp
next
  case (Cons a os)
  have "z \<in> set (merge_step D ncm a mc)"
    using Cons.prems(1) Cons.prems(2)[of a] by (simp add: merge_step_keeps)
  then show ?case
    using Cons.IH Cons.prems(2) by simp
qed

lemma newer_addition_kept:
  assumes X: "X \<in> set ns" and new: "nid X \<notin> nid ` set os"
  shows "X \<in> set (merge_children D ns os)"
proof -
  have "nid ol \<in> D \<or> childMap ns (nid ol) = None \<or> nid ol \<noteq> nid X" if "ol \<in> set os" for ol
    using that new by (metis imageI)
  with X show ?thesis
    unfolding merge_children_def by (rule fold_merge_step_keeps)
qed

lemma older_addition_kept:
  assumes "Y \<in> set os" "nid Y \<notin> D" "nid Y \<notin> nid ` set ns"
  shows "Y \<in> set (merge_children D ns os)"
proof -
  from assms(1) obtain os1 os2 where os: "os = os1 @ Y # os2"
    by (auto dest: split_list)
  let ?st = "fold (merge_step D (childMap ns)) os1 ns"
  have none: "childMap ns (nid Y) = None"
    using assms(3) by (simp add: childMap_None)
  then have "merge_step D (childMap ns) Y ?st = ?st @ [Y]"
    using assms(2) by (simp add: merge_step_def)
  then have "Y \<in> set (merge_step D (childMap ns) Y ?st)" by simp
  then have "Y \<in> set (fold (merge_step D (childMap ns)) os2 (merge_step D (childMap ns) Y ?st))"
    by (rule fold_merge_step_keeps) (use none in metis)
  then show ?thesis
    by (simp add: merge_children_def os)
qed

lemma node_at_nid: "node_at n p = Some n' \<Longrightarrow> nid n' \<in> insert (nid n) (set p)"
proof (induction p arbitrary: n)
  case Nil
  then show ?case by simp
next
  case (Cons i p)
  then obtain c where c: "find (\<lambda>c. nid c = i) (kids n) = Some c" "node_at c p = Some n'"
    by (auto split: option.splits)
  from find_SomeD[OF c(1)] Cons.IH[OF c(2)] show ?case by auto
qed

lemma matched_path:
  "wf_node n \<Longrightarrow> wf_node ol \<Longrightarrow> node_at n p = Some n' \<Longrightarrow> node_at ol p = Some o' \<Longrightarrow>
   nid n \<notin> D \<Longrightarrow> nid ol \<notin> D \<Longrightarrow> set p \<inter> D = {} \<Longrightarrow>
     \<exists>m. mergeNodes (Some n) (Some ol) D = Some m \<and>
         node_at m p = mergeNodes (Some n') (Some o') D"
proof (induction p arbitrary: n ol)
  case Nil
  then show ?case using mergeNodes_live[of n D ol] by auto
next
  case (Cons i p)
  from Cons.prems(3) obtain c where c: "find (\<lambda>c. nid c = i) (kids n) = Some c" "node_at c p = Some n'"
    by (auto split: option.splits)
  from Cons.prems(4) obtain oc where oc: "find (\<lambda>c. nid c = i) (kids ol) = Some oc" "node_at oc p = Some o'"
    by (auto split: option.splits)
  from find_SomeD[OF c(1)] have cin: "c \<in> set (kids n)" "nid c = i" by auto
  from find_SomeD[OF oc(1)] have ocin: "oc \<in> set (kids ol)" "nid oc = i" by auto
  have iD: "i \<notin> D" "set p \<inter> D = {}" using Cons.prems(7) by auto
  obtain m where m: "mergeNodes (Some n) (Some ol) D = Some m"
    using mergeNodes_live[of n D ol] Cons.prems(5,6) by auto
  let ?g = "merged_child D (rev (kids ol))"
  have "find (\<lambda>x. nid x = i) (kids m) = Some (?g c)"
    using mergeNodes_kids[OF m Cons.prems(1)]
    by (simp add: find_map_nid[of ?g, OF nid_merged_child] c(1))
  then have at: "node_at m (i # p) = node_at (?g c) p" by simp
  from Cons.IH[OF wf_node_child[OF Cons.prems(1) cin(1)] wf_node_child[OF Cons.prems(2) ocin(1)]
      c(2) oc(2)] cin(2) ocin(2) iD
  obtain mc where mc: "mergeNodes (Some c) (Some oc) D = Some mc"
      "node_at mc p = mergeNodes (Some n') (Some o') D"
    by auto
  have "distinct (map nid (rev (kids ol)))"
    using wf_node_kids[OF Cons.prems(2)] by (simp add: rev_map[symmetric])
  then have "find (\<lambda>x. nid x = nid c \<and> nid x \<notin> D) (rev (kids ol)) = Some oc"
    by (rule find_distinct) (use ocin cin iD in auto)
  then have "?g c = mc"
    using mc(1) by (simp add: merged_child_def)
  with at mc(2) m show ?case by simp
qed

section \<open>The merged snapshot\<close>

lemma deletedIds_char:
  "deletedIds rt cloud local =
     {i. \<exists>r \<in> set (deletedNodes_or_empty cloud) \<union> set (deletedNodes_or_empty local).
            JSON_parse_id rt r = Some i}"
  by (simp add: deletedIds_def parseDeletedIds_eq set_allDeletedNodes)

lemma tree_merge:
  "tree (mergeMindmapData rt cloud local) =
     mergeNodes (tree (newerData rt cloud local)) (tree (olderData rt cloud local))
       (deletedIds rt cloud local)"
  by (simp add: mergeMindmapData_def)

lemma older_only_child:
  assumes m: "mergeNodes (Some n) (Some ol) D = Some m" and wf: "wf_node n"
    and x: "x \<in> set (kids ol)" "nid x \<notin> nid ` set (kids n)"
  shows "(x \<in> set (kids m)) = (nid x \<notin> D)"
proof -
  have "x \<notin> set (map (merged_child D (rev (kids ol))) (kids n))"
  proof
    assume "x \<in> set (map (merged_child D (rev (kids ol))) (kids n))"
    then obtain c where "c \<in> set (kids n)" "x = merged_child D (rev (kids ol)) c" by auto
    then have "nid x \<in> nid ` set (kids n)" by (simp add: nid_merged_child)
    with x(2) show False by simp
  qed
  then show ?thesis
    using x by (simp add: mergeNodes_kids[OF m wf])
qed

lemma matched_additions:
  assumes wf: "wf_node n" "wf_node ol"
    and at: "node_at n p = Some nN" "node_at ol p = Some oN"
    and live: "nid n \<notin> D" "nid ol \<notin> D" "set p \<inter> D = {}"
    and X: "X \<in> set (kids nN)" "nid X \<notin> nid ` set (kids oN)"
    and Y: "Y \<in> set (kids oN)" "nid Y \<notin> nid ` set (kids nN)" "nid Y \<notin> D"
  shows "\<exists>m mN. mergeNodes (Some n) (Some ol) D = Some m \<and> node_at m p = Some mN \<and>
           X \<in> set (kids mN) \<and> Y \<in> set (kids mN)"
proof -
  obtain m where m: "mergeNodes (Some n) (Some ol) D = Some m"
      "node_at m p = mergeNodes (Some nN) (Some oN) D"
    using matched_path[OF wf at live] by blast
  have "nid nN \<notin> D" "nid oN \<notin> D"
    using node_at_nid[OF at(1)] node_at_nid[OF at(2)] live by auto
  then have N: "mergeNodes (Some nN) (Some oN) D =
      Some (Node (nid nN) (props nN) (Some (merge_children D (kids nN) (kids oN))))"
    by (simp add: mergeNodes_both)
  have "X \<in> set (merge_children D (kids nN) (kids oN))"
    using X by (rule newer_addition_kept)
  moreover have "Y \<in> set (merge_children D (kids nN) (kids oN))"
    using Y(1,3,2) by (rule older_addition_kept)
  ultimately show ?thesis
    using m N by (simp add: kids_Node)
qed

lemma scenario_children:
  assumes A: "wf_node A" "children_present A" and ne: "nid B \<noteq> nid A"
  shows "merge_children {} [A, B] [A] = [A, B]"
proof -
  have "merged_child {} [A] A = A"
    using mergeNodes_self[OF A, of "{}"] by (simp add: merged_child_def)
  moreover have "merged_child {} [A] B = B"
    using ne by (simp add: merged_child_def)
  moreover have "distinct (map nid [A, B])"
    using ne by auto
  ultimately show ?thesis
    by (simp add: merge_children_char)
qed

text \<open>The merge asks the deletion set about the ids of nodes only.\<close>

declare ids_defined.simps [simp del]

lemma ids_defined_nid: "ids_defined n \<Longrightarrow> nid n \<noteq> Undefined"
  and ids_defined_child: "ids_defined n \<Longrightarrow> c \<in> set (kids n) \<Longrightarrow> ids_defined c"
  by (subst (asm) ids_defined.simps, simp add: list_all_iff)+

lemma defined_mem:
  "i \<noteq> Undefined \<Longrightarrow> (\<And>k. (Ident k \<in> D) = (Ident k \<in> D')) \<Longrightarrow> (i \<in> D) = (i \<in> D')"
  by (cases i) simp_all

lemma mergeNodes_defined_ids:
  assumes same: "\<And>k. (Ident k \<in> D) = (Ident k \<in> D')"
  shows "tree_ids_defined newer \<Longrightarrow> ids_defined ol \<Longrightarrow>
           mergeNodes newer (Some ol) D = mergeNodes newer (Some ol) D'"
proof (induction ol arbitrary: newer rule: kids_induct)
  case (node ol)
  show ?case
  proof (cases newer)
    case None
    then show ?thesis by simp
  next
    case (Some n)
    with node.prems have n: "ids_defined n" by (simp add: tree_ids_defined_def)
    have rn: "(nid n \<in> D) = (nid n \<in> D')"
      by (rule defined_mem[OF ids_defined_nid[OF n] same])
    have ro: "(nid ol \<in> D) = (nid ol \<in> D')"
      by (rule defined_mem[OF ids_defined_nid[OF node.prems(2)] same])
    have step: "merge_step D (childMap (kids n)) c = merge_step D' (childMap (kids n)) c"
      if c: "c \<in> set (kids ol)" for c
    proof -
      have cd: "ids_defined c" using node.prems(2) c by (rule ids_defined_child)
      have mem: "(nid c \<in> D) = (nid c \<in> D')"
        by (rule defined_mem[OF ids_defined_nid[OF cd] same])
      have "tree_ids_defined (childMap (kids n) (nid c))"
      proof (cases "childMap (kids n) (nid c)")
        case None
        then show ?thesis by (simp add: tree_ids_defined_def)
      next
        case (Some x)
        from childMap_Some[OF Some] have "x \<in> set (kids n)" by simp
        with n have "ids_defined x" by (rule ids_defined_child)
        with Some show ?thesis by (simp add: tree_ids_defined_def)
      qed
      from node.IH[OF c this cd]
      have "mergeNodes (childMap (kids n) (nid c)) (Some c) D =
            mergeNodes (childMap (kids n) (nid c)) (Some c) D'" .
      with mem show ?thesis
        by (intro ext) (simp add: merge_step_def)
    qed
    have "merge_children D (kids n) (kids ol) = merge_children D' (kids n) (kids ol)"
      unfolding merge_children_def
      by (rule fold_cong) (simp_all add: step)
    with rn ro Some show ?thesis
      by (simp add: mergeNodes_both)
  qed
qed

lemma mergeNodes_defined_ids_opt:
  assumes "\<And>k. (Ident k \<in> D) = (Ident k \<in> D')" "tree_ids_defined newer" "tree_ids_defined older"
  shows "mergeNodes newer older D = mergeNodes newer older D'"
proof (cases older)
  case None
  then show ?thesis by (cases newer) simp_all
next
  case (Some ol)
  with assms(3) have "ids_defined ol" by (simp add: tree_ids_defined_def)
  with assms(1,2) Some show ?thesis
    using mergeNodes_defined_ids[of D D' newer ol] by simp
qed

lemma has_id_iff: "has_id rt r = (\<exists>k. JSON_parse_id rt r = Some (Ident k))"
  by (auto simp: has_id_def split: option.splits jsid.splits)

lemma without_malformed_fields [simp]:
  "tree (without_malformed rt d) = tree d"
  "timestamp (without_malformed rt d) = timestamp d"
  "currentCenterId (without_malformed rt d) = currentCenterId d"
  "viewOffset (without_malformed rt d) = viewOffset d"
  "deletedNodes_or_empty (without_malformed rt d) = filter (has_id rt) (deletedNodes_or_empty d)"
  by (simp_all add: without_malformed_def deletedNodes_or_empty_def)

lemma without_malformed_newer:
  "local_is_newer rt (without_malformed rt cloud) (without_malformed rt local) =
     local_is_newer rt cloud local"
  by (simp add: local_is_newer_def)

lemma without_malformed_ids:
  "(Ident k \<in> deletedIds rt (without_malformed rt cloud) (without_malformed rt local)) =
     (Ident k \<in> deletedIds rt cloud local)"
  by (auto simp: deletedIds_char has_id_iff)

text \<open>Unfolding the example inputs.\<close>

lemmas demo_eval =
  snapshot_def branch_def leaf_def kids_def demo_runtime_def newerData_def olderData_def
  local_is_newer_def deletedIds_def allDeletedNodes_def new_Set_def set_add_def
  parseDeletedIds_def deletedNodes_or_empty_def

section \<open>Deletion against a concurrent edit\<close>

text \<open>
  C1 (a deletion wins over a concurrent edit), evaluated on the code. The cloud snapshot
  is the older one and carries the deletion record of \<open>K\<close>; the local snapshot is the
  newer one and still has \<open>K\<close>, edited. The children of the newer side are never compared
  with the deletion set, so \<open>K\<close> stays in the merged tree, next to its deletion record.
  With the two timestamps exchanged the same \<open>K\<close> is skipped, as the claim says.
\<close>

theorem tombstone_ignored_on_newer_side:
  \<open>mergeMindmapData demo_runtime
      (snapshot [] [''{"id":"K"}''] ''root'' ''2024-01-01T00:00:00.000Z'')
      (snapshot [leaf ''K'' ''edited''] [] ''K'' ''2024-01-02T00:00:00.000Z'')
    = snapshot [leaf ''K'' ''edited''] [''{"id":"K"}''] ''K'' ''2024-01-03T00:00:00.000Z'' \<and>
    mergeMindmapData demo_runtime
      (snapshot [leaf ''K'' ''edited''] [] ''K'' ''2024-01-01T00:00:00.000Z'')
      (snapshot [] [''{"id":"K"}''] ''root'' ''2024-01-02T00:00:00.000Z'')
    = snapshot [] [''{"id":"K"}''] ''root'' ''2024-01-03T00:00:00.000Z''\<close>
  by (simp add: mergeMindmapData_def mergeNodes_both merge_children_def merge_step_def
      childMap_def demo_eval)

section \<open>Which snapshot wins\<close>

text \<open>
  C2, the claim as stated, at two snapshots with the same timestamp: the label of node
  \<open>A\<close> and the focused node of the result are the cloud's, not the local ones.
\<close>

theorem tie_takes_remote_value:
  "timestamp (snapshot [leaf ''A'' ''cloud label''] [] ''root'' ''2024-01-01T00:00:00.000Z'') =
     timestamp (snapshot [leaf ''A'' ''local label''] [] ''A'' ''2024-01-01T00:00:00.000Z'') \<and>
   mergeMindmapData demo_runtime
       (snapshot [leaf ''A'' ''cloud label''] [] ''root'' ''2024-01-01T00:00:00.000Z'')
       (snapshot [leaf ''A'' ''local label''] [] ''A'' ''2024-01-01T00:00:00.000Z'')
     = snapshot [leaf ''A'' ''cloud label''] [] ''root'' ''2024-01-03T00:00:00.000Z''"
  by (simp add: mergeMindmapData_def mergeNodes_both merge_children_def merge_step_def
      childMap_def demo_eval)

text \<open>
  C2, as the code has it. The focused node and the view offset of the result are those
  of the newer snapshot, and every node of the newer tree (sibling ids distinct) is found
  in the merged tree under the same path of ids with its own scalar fields. The newer
  snapshot is the local one when its timestamp is strictly greater, and the cloud one
  when it is smaller or when the two timestamps are equal.
\<close>

theorem newer_wins_remote_on_tie:
  "currentCenterId (mergeMindmapData rt cloud local) = currentCenterId (newerData rt cloud local) \<and>
   viewOffset (mergeMindmapData rt cloud local) = viewOffset (newerData rt cloud local) \<and>
   (tree (newerData rt cloud local) = Some n \<and> wf_node n \<and>
    tree (mergeMindmapData rt cloud local) = Some m \<and> node_at n p = Some n' \<longrightarrow>
      (\<exists>m'. node_at m p = Some m' \<and> nid m' = nid n' \<and> props m' = props n')) \<and>
   (Date_getTime rt (timestamp local) = Some t_local \<and> Date_getTime rt (timestamp cloud) = Some t_cloud \<and>
    t_cloud < t_local \<longrightarrow> newerData rt cloud local = local) \<and>
   (Date_getTime rt (timestamp local) = Some t_local \<and> Date_getTime rt (timestamp cloud) = Some t_cloud \<and>
    t_local < t_cloud \<longrightarrow> newerData rt cloud local = cloud) \<and>
   (Date_getTime rt (timestamp local) = Date_getTime rt (timestamp cloud) \<longrightarrow>
      newerData rt cloud local = cloud)"
proof -
  have "\<exists>m'. node_at m p = Some m' \<and> nid m' = nid n' \<and> props m' = props n'"
    if h: "tree (newerData rt cloud local) = Some n" "wf_node n"
      "tree (mergeMindmapData rt cloud local) = Some m" "node_at n p = Some n'"
  proof -
    from h(1,3) have "mergeNodes (Some n) (tree (olderData rt cloud local))
        (deletedIds rt cloud local) = Some m"
      by (simp add: tree_merge)
    from newer_preserved[OF h(2) this h(4)] show ?thesis .
  qed
  then show ?thesis
    by (auto simp: mergeMindmapData_def newerData_def local_is_newer_def js_gt_irrefl)
qed

theorem newer_wins_remote_on_tie_witness:
  "(\<exists>m'. node_at (branch ''root'' ''Root'' [leaf ''A'' ''local label'', leaf ''B'' ''b''])
           [Ident ''A''] = Some m' \<and> props m' = props (leaf ''A'' ''local label'')) \<and>
   newerData demo_runtime
     (snapshot [leaf ''B'' ''b'', leaf ''A'' ''cloud label''] [] ''root'' ''2024-01-01T00:00:00.000Z'')
     (snapshot [leaf ''A'' ''local label''] [] ''A'' ''2024-01-02T00:00:00.000Z'')
   = snapshot [leaf ''A'' ''local label''] [] ''A'' ''2024-01-02T00:00:00.000Z''"
proof -
  let ?c = "snapshot [leaf ''B'' ''b'', leaf ''A'' ''cloud label''] [] ''root'' ''2024-01-01T00:00:00.000Z''"
  let ?l = "snapshot [leaf ''A'' ''local label''] [] ''A'' ''2024-01-02T00:00:00.000Z''"
  let ?n = "branch ''root'' ''Root'' [leaf ''A'' ''local label'']"
  let ?m = "branch ''root'' ''Root'' [leaf ''A'' ''local label'', leaf ''B'' ''b'']"
  have h1: "tree (newerData demo_runtime ?c ?l) = Some ?n"
    by (simp add: demo_eval)
  have h2: "wf_node ?n"
    by (simp add: wf_node.simps branch_def leaf_def kids_def)
  have h3: "tree (mergeMindmapData demo_runtime ?c ?l) = Some ?m"
    by (simp add: mergeMindmapData_def mergeNodes_both merge_children_def merge_step_def
        childMap_def demo_eval)
  have h4: "node_at ?n [Ident ''A''] = Some (leaf ''A'' ''local label'')"
    by (simp add: branch_def leaf_def kids_def)
  have h5: "Date_getTime demo_runtime (timestamp ?l) = Some 1704153600000"
    and h6: "Date_getTime demo_runtime (timestamp ?c) = Some 1704067200000"
    by (simp_all add: snapshot_def demo_times)
  have h7: "(1704067200000 :: int) < 1704153600000" by simp
  note T = newer_wins_remote_on_tie
      [of demo_runtime ?c ?l ?n ?m "[Ident ''A'']" "leaf ''A'' ''local label''"
          1704153600000 1704067200000]
  from T h1 h2 h3 h4
  have "\<exists>m'. node_at ?m [Ident ''A''] = Some m' \<and> nid m' = nid (leaf ''A'' ''local label'') \<and>
          props m' = props (leaf ''A'' ''local label'')"
    by blast
  moreover from T h5 h6 h7 have "newerData demo_runtime ?c ?l = ?l"
    by blast
  ultimately show ?thesis by blast
qed

text \<open>
  C3. When the two timestamps read equal, the cloud (remote) snapshot is the newer one
  and the local snapshot the older one: the cloud tree is the base of the tree merge,
  and the focused node and the view offset of the result are the cloud's.
\<close>

theorem tie_remote_is_newer:
  assumes "Date_getTime rt (timestamp cloud) = Date_getTime rt (timestamp local)"
  shows "newerData rt cloud local = cloud \<and> olderData rt cloud local = local \<and>
         tree (mergeMindmapData rt cloud local) =
           mergeNodes (tree cloud) (tree local) (deletedIds rt cloud local) \<and>
         currentCenterId (mergeMindmapData rt cloud local) = currentCenterId cloud \<and>
         viewOffset (mergeMindmapData rt cloud local) = viewOffset cloud"
  using assms
  by (simp add: mergeMindmapData_def newerData_def olderData_def local_is_newer_def js_gt_irrefl)

theorem tie_remote_is_newer_witness:
  "Date_getTime demo_runtime
       (timestamp (snapshot [leaf ''A'' ''cloud label''] [] ''root'' ''2024-01-01T00:00:00.000Z'')) =
     Date_getTime demo_runtime
       (timestamp (snapshot [leaf ''A'' ''local label''] [] ''A'' ''2024-01-01T00:00:00.000Z'')) \<and>
   currentCenterId
     (mergeMindmapData demo_runtime
        (snapshot [leaf ''A'' ''cloud label''] [] ''root'' ''2024-01-01T00:00:00.000Z'')
        (snapshot [leaf ''A'' ''local label''] [] ''A'' ''2024-01-01T00:00:00.000Z'')) = ''root''"
proof -
  let ?c = "snapshot [leaf ''A'' ''cloud label''] [] ''root'' ''2024-01-01T00:00:00.000Z''"
  let ?l = "snapshot [leaf ''A'' ''local label''] [] ''A'' ''2024-01-01T00:00:00.000Z''"
  have h: "Date_getTime demo_runtime (timestamp ?c) = Date_getTime demo_runtime (timestamp ?l)"
    by (simp add: snapshot_def)
  show ?thesis
    using h tie_remote_is_newer [OF h] by (simp add: snapshot_def)
qed

section \<open>Deletion records\<close>

text \<open>
  C4. The deletion records of the merged snapshot are exactly the union of the records
  of the two inputs, each record once; a missing \<open>deletedNodes\<close> counts as empty.
\<close>

theorem tombstones_exact_union:
  "\<exists>rs. deletedNodes (mergeMindmapData rt cloud local) = Some rs \<and> distinct rs \<and>
        set rs = set (deletedNodes_or_empty cloud) \<union> set (deletedNodes_or_empty local)"
  by (simp add: mergeMindmapData_def set_allDeletedNodes distinct_allDeletedNodes)

theorem tombstones_exact_union_witness:
  \<open>\<exists>rs. deletedNodes
          (mergeMindmapData demo_runtime
             (snapshot [] [''{"id":"K"}'', ''junk''] ''root'' ''2024-01-01T00:00:00.000Z'')
             ((snapshot [] [] ''root'' ''2024-01-02T00:00:00.000Z'')\<lparr>deletedNodes := None\<rparr>)) = Some rs \<and>
        distinct rs \<and> set rs = {''{"id":"K"}'', ''junk''}\<close>
  using tombstones_exact_union
    [of demo_runtime \<open>snapshot [] [''{"id":"K"}'', ''junk''] ''root'' ''2024-01-01T00:00:00.000Z''\<close>
        "(snapshot [] [] ''root'' ''2024-01-02T00:00:00.000Z'')\<lparr>deletedNodes := None\<rparr>"]
  by (simp add: snapshot_def deletedNodes_or_empty_def)

section \<open>Merging a snapshot with itself\<close>

text \<open>
  C5. Two snapshots with the same tree, whatever their timestamps and deletion records,
  merge into that tree, for the snapshots of the data model: no two siblings share an id,
  every node carries its \<open>children\<close> sequence, and the root is not deleted (its id is
  not in the deletion set).
\<close>

theorem self_merge_is_identity:
  assumes "tree cloud = Some t" "tree local = Some t"
    and "wf_node t" "children_present t" "nid t \<notin> deletedIds rt cloud local"
  shows "tree (mergeMindmapData rt cloud local) = Some t"
proof -
  have "tree (newerData rt cloud local) = Some t" "tree (olderData rt cloud local) = Some t"
    using assms(1,2) by (simp_all add: newerData_def olderData_def)
  then show ?thesis
    using assms(3-5) by (simp add: tree_merge mergeNodes_self)
qed

theorem self_merge_is_identity_witness:
  \<open>tree (mergeMindmapData demo_runtime
            (snapshot [leaf ''K'' ''k'', branch ''A'' ''a'' [leaf ''B'' ''b'']] [''{"id":"K"}'']
               ''root'' ''2024-01-01T00:00:00.000Z'')
            (snapshot [leaf ''K'' ''k'', branch ''A'' ''a'' [leaf ''B'' ''b'']] [''{"id":"K"}'']
               ''A'' ''2024-01-02T00:00:00.000Z''))
      = Some (branch ''root'' ''Root'' [leaf ''K'' ''k'', branch ''A'' ''a'' [leaf ''B'' ''b'']])\<close>
proof -
  let ?t = "branch ''root'' ''Root'' [leaf ''K'' ''k'', branch ''A'' ''a'' [leaf ''B'' ''b'']]"
  let ?c = \<open>snapshot [leaf ''K'' ''k'', branch ''A'' ''a'' [leaf ''B'' ''b'']] [''{"id":"K"}'']
               ''root'' ''2024-01-01T00:00:00.000Z''\<close>
  let ?l = \<open>snapshot [leaf ''K'' ''k'', branch ''A'' ''a'' [leaf ''B'' ''b'']] [''{"id":"K"}'']
               ''A'' ''2024-01-02T00:00:00.000Z''\<close>
  have h1: "tree ?c = Some ?t" and h2: "tree ?l = Some ?t"
    by (simp_all add: snapshot_def)
  have h3: "wf_node ?t"
    by (simp add: wf_node.simps branch_def leaf_def kids_def)
  have h4: "children_present ?t"
    by (simp add: children_present.simps branch_def leaf_def kids_def)
  have h5: "nid ?t \<notin> deletedIds demo_runtime ?c ?l"
    by (simp add: demo_eval)
  show ?thesis
    using self_merge_is_identity [OF h1 h2 h3 h4 h5] .
qed

section \<open>Additions on both sides\<close>

text \<open>
  C6, the claim as stated, at two snapshots without deletion records in which node \<open>N\<close>
  is on both sides, with the new child \<open>X\<close> on the newer side and the new child \<open>Y\<close> on the
  older side, but under different parents: the merged tree has two nodes \<open>N\<close>, one with
  \<open>X\<close> and one with \<open>Y\<close>, and none with both.
\<close>

theorem moved_node_splits_additions:
  "mergeMindmapData demo_runtime
      (snapshot [branch ''N'' ''n'' [leaf ''Y'' ''y'']] [] ''root'' ''2024-01-01T00:00:00.000Z'')
      (snapshot [branch ''P'' ''p'' [branch ''N'' ''n'' [leaf ''X'' ''x'']]] [] ''root''
         ''2024-01-02T00:00:00.000Z'')
    = snapshot [branch ''P'' ''p'' [branch ''N'' ''n'' [leaf ''X'' ''x'']],
                branch ''N'' ''n'' [leaf ''Y'' ''y'']] [] ''root'' ''2024-01-03T00:00:00.000Z''"
  by (simp add: mergeMindmapData_def mergeNodes_both merge_children_def merge_step_def
      childMap_def demo_eval)

text \<open>
  C6, as the code has it. When \<open>N\<close> is reached by the same path of ids from the root on
  both sides, no id on that path (the two roots and \<open>N\<close> included) is in the deletion set
  and no two siblings share an id, a child \<open>X\<close> that only the newer \<open>N\<close> has and a child
  \<open>Y\<close> that only the older \<open>N\<close> has, \<open>Y\<close> not deleted, are both children of the merged
  \<open>N\<close>. And the scenario of the claim: remote root with child \<open>A\<close> at \<open>t1\<close>, local root
  with children \<open>A\<close> and \<open>B\<close> at a later \<open>t2\<close>, no deletion records, merge into the local
  root with \<open>A\<close> and \<open>B\<close>, no deletion records, and the timestamp of the merge.
\<close>

theorem addition_preservation:
  "(tree (newerData rt cloud local) = Some n \<and> tree (olderData rt cloud local) = Some ol \<and>
    wf_node n \<and> wf_node ol \<and> node_at n p = Some nN \<and> node_at ol p = Some oN \<and>
    nid n \<notin> deletedIds rt cloud local \<and> nid ol \<notin> deletedIds rt cloud local \<and>
    set p \<inter> deletedIds rt cloud local = {} \<and>
    X \<in> set (kids nN) \<and> nid X \<notin> nid ` set (kids oN) \<and>
    Y \<in> set (kids oN) \<and> nid Y \<notin> nid ` set (kids nN) \<and> nid Y \<notin> deletedIds rt cloud local
    \<longrightarrow> (\<exists>m mN. tree (mergeMindmapData rt cloud local) = Some m \<and> node_at m p = Some mN \<and>
                X \<in> set (kids mN) \<and> Y \<in> set (kids mN))) \<and>
   (Date_getTime rt t1 = Some a \<and> Date_getTime rt t2 = Some b \<and> a < b \<and>
    wf_node A \<and> children_present A \<and> nid B \<noteq> nid A
    \<longrightarrow> mergeMindmapData rt
          \<lparr>tree = Some (Node r f1 (Some [A])), currentCenterId = c1, viewOffset = v1,
           deletedNodes = Some [], timestamp = t1\<rparr>
          \<lparr>tree = Some (Node r f2 (Some [A, B])), currentCenterId = c2, viewOffset = v2,
           deletedNodes = Some [], timestamp = t2\<rparr>
        = \<lparr>tree = Some (Node r f2 (Some [A, B])), currentCenterId = c2, viewOffset = v2,
           deletedNodes = Some [], timestamp = Date_now rt\<rparr>)"
proof (intro conjI impI)
  assume h: "tree (newerData rt cloud local) = Some n \<and> tree (olderData rt cloud local) = Some ol \<and>
    wf_node n \<and> wf_node ol \<and> node_at n p = Some nN \<and> node_at ol p = Some oN \<and>
    nid n \<notin> deletedIds rt cloud local \<and> nid ol \<notin> deletedIds rt cloud local \<and>
    set p \<inter> deletedIds rt cloud local = {} \<and>
    X \<in> set (kids nN) \<and> nid X \<notin> nid ` set (kids oN) \<and>
    Y \<in> set (kids oN) \<and> nid Y \<notin> nid ` set (kids nN) \<and> nid Y \<notin> deletedIds rt cloud local"
  then have "\<exists>m mN. mergeNodes (Some n) (Some ol) (deletedIds rt cloud local) = Some m \<and>
      node_at m p = Some mN \<and> X \<in> set (kids mN) \<and> Y \<in> set (kids mN)"
    by (intro matched_additions[where nN=nN and oN=oN]) simp_all
  with h show "\<exists>m mN. tree (mergeMindmapData rt cloud local) = Some m \<and> node_at m p = Some mN \<and>
                X \<in> set (kids mN) \<and> Y \<in> set (kids mN)"
    by (simp add: tree_merge)
next
  let ?c = "\<lparr>tree = Some (Node r f1 (Some [A])), currentCenterId = c1, viewOffset = v1,
           deletedNodes = Some [], timestamp = t1\<rparr>"
  let ?l = "\<lparr>tree = Some (Node r f2 (Some [A, B])), currentCenterId = c2, viewOffset = v2,
           deletedNodes = Some [], timestamp = t2\<rparr>"
  assume h: "Date_getTime rt t1 = Some a \<and> Date_getTime rt t2 = Some b \<and> a < b \<and>
    wf_node A \<and> children_present A \<and> nid B \<noteq> nid A"
  then have newer: "local_is_newer rt ?c ?l"
    by (simp add: local_is_newer_def)
  have D: "deletedIds rt ?c ?l = {}"
    by (simp add: deletedIds_char deletedNodes_or_empty_def)
  have all: "allDeletedNodes ?c ?l = []"
    by (simp add: allDeletedNodes_def deletedNodes_or_empty_def new_Set_def)
  have "merge_children {} [A, B] [A] = [A, B]"
    using h by (intro scenario_children) simp_all
  then show "mergeMindmapData rt ?c ?l
        = \<lparr>tree = Some (Node r f2 (Some [A, B])), currentCenterId = c2, viewOffset = v2,
           deletedNodes = Some [], timestamp = Date_now rt\<rparr>"
    using newer
    by (simp add: mergeMindmapData_def newerData_def olderData_def D all mergeNodes_both kids_Node)
qed

theorem addition_preservation_witness:
  "(\<exists>m mN. tree (mergeMindmapData demo_runtime
                 (snapshot [branch ''N'' ''n'' [leaf ''Y'' ''y'']] [] ''root''
                    ''2024-01-01T00:00:00.000Z'')
                 (snapshot [branch ''N'' ''n'' [leaf ''X'' ''x'']] [] ''root''
                    ''2024-01-02T00:00:00.000Z'')) = Some m \<and>
            node_at m [Ident ''N''] = Some mN \<and>
            leaf ''X'' ''x'' \<in> set (kids mN) \<and> leaf ''Y'' ''y'' \<in> set (kids mN)) \<and>
   mergeMindmapData demo_runtime
     \<lparr>tree = Some (Node (Ident ''root'') ''Root'' (Some [leaf ''A'' ''a''])),
      currentCenterId = ''root'', viewOffset = (0 :: int, 0 :: int), deletedNodes = Some [],
      timestamp = ''2024-01-01T00:00:00.000Z''\<rparr>
     \<lparr>tree = Some (Node (Ident ''root'') ''Root'' (Some [leaf ''A'' ''a'', leaf ''B'' ''b''])),
      currentCenterId = ''B'', viewOffset = (5, 7), deletedNodes = Some [],
      timestamp = ''2024-01-02T00:00:00.000Z''\<rparr>
   = \<lparr>tree = Some (Node (Ident ''root'') ''Root'' (Some [leaf ''A'' ''a'', leaf ''B'' ''b''])),
      currentCenterId = ''B'', viewOffset = (5, 7), deletedNodes = Some [],
      timestamp = Date_now demo_runtime\<rparr>"
proof -
  let ?c = "snapshot [branch ''N'' ''n'' [leaf ''Y'' ''y'']] [] ''root'' ''2024-01-01T00:00:00.000Z''"
  let ?l = "snapshot [branch ''N'' ''n'' [leaf ''X'' ''x'']] [] ''root'' ''2024-01-02T00:00:00.000Z''"
  let ?n = "branch ''root'' ''Root'' [branch ''N'' ''n'' [leaf ''X'' ''x'']]"
  let ?ol = "branch ''root'' ''Root'' [branch ''N'' ''n'' [leaf ''Y'' ''y'']]"
  let ?nN = "branch ''N'' ''n'' [leaf ''X'' ''x'']"
  let ?oN = "branch ''N'' ''n'' [leaf ''Y'' ''y'']"
  note T = addition_preservation
    [where rt = demo_runtime and cloud = ?c and local = ?l and n = ?n and ol = ?ol
       and p = "[Ident ''N'']" and nN = ?nN and oN = ?oN
       and X = "leaf ''X'' ''x''" and Y = "leaf ''Y'' ''y''"
       and ?t1.0 = "''2024-01-01T00:00:00.000Z''" and a = 1704067200000
       and ?t2.0 = "''2024-01-02T00:00:00.000Z''" and b = 1704153600000
       and A = "leaf ''A'' ''a''" and B = "leaf ''B'' ''b''"
       and r = "Ident ''root''" and ?f1.0 = "''Root''" and ?f2.0 = "''Root''"
       and ?c1.0 = "''root''" and ?c2.0 = "''B''" and ?v1.0 = "(0, 0)" and ?v2.0 = "(5, 7)"]
  have g: "tree (newerData demo_runtime ?c ?l) = Some ?n"
      "tree (olderData demo_runtime ?c ?l) = Some ?ol"
      "nid ?n \<notin> deletedIds demo_runtime ?c ?l" "nid ?ol \<notin> deletedIds demo_runtime ?c ?l"
      "set [Ident ''N''] \<inter> deletedIds demo_runtime ?c ?l = {}"
      "nid (leaf ''Y'' ''y'') \<notin> deletedIds demo_runtime ?c ?l"
    by (simp_all add: demo_eval)
  have w: "wf_node ?n" "wf_node ?ol"
    by (simp_all add: wf_node.simps branch_def leaf_def kids_def)
  have a: "node_at ?n [Ident ''N''] = Some ?nN" "node_at ?ol [Ident ''N''] = Some ?oN"
      "leaf ''X'' ''x'' \<in> set (kids ?nN)" "nid (leaf ''X'' ''x'') \<notin> nid ` set (kids ?oN)"
      "leaf ''Y'' ''y'' \<in> set (kids ?oN)" "nid (leaf ''Y'' ''y'') \<notin> nid ` set (kids ?nN)"
    by (simp_all add: branch_def leaf_def kids_def)
  have s: "Date_getTime demo_runtime ''2024-01-01T00:00:00.000Z'' = Some 1704067200000"
      "Date_getTime demo_runtime ''2024-01-02T00:00:00.000Z'' = Some 1704153600000"
      "(1704067200000 :: int) < 1704153600000"
      "wf_node (leaf ''A'' ''a'')" "children_present (leaf ''A'' ''a'')"
      "nid (leaf ''B'' ''b'') \<noteq> nid (leaf ''A'' ''a'')"
    by (simp_all add: demo_times wf_node.simps children_present.simps leaf_def kids_def)
  from T g w a have "\<exists>m mN. tree (mergeMindmapData demo_runtime ?c ?l) = Some m \<and>
      node_at m [Ident ''N''] = Some mN \<and>
      leaf ''X'' ''x'' \<in> set (kids mN) \<and> leaf ''Y'' ''y'' \<in> set (kids mN)"
    by blast
  moreover from T s have "mergeMindmapData demo_runtime
     \<lparr>tree = Some (Node (Ident ''root'') ''Root'' (Some [leaf ''A'' ''a''])),
      currentCenterId = ''root'', viewOffset = (0 :: int, 0 :: int), deletedNodes = Some [],
      timestamp = ''2024-01-01T00:00:00.000Z''\<rparr>
     \<lparr>tree = Some (Node (Ident ''root'') ''Root'' (Some [leaf ''A'' ''a'', leaf ''B'' ''b''])),
      currentCenterId = ''B'', viewOffset = (5, 7), deletedNodes = Some [],
      timestamp = ''2024-01-02T00:00:00.000Z''\<rparr>
   = \<lparr>tree = Some (Node (Ident ''root'') ''Root'' (Some [leaf ''A'' ''a'', leaf ''B'' ''b''])),
      currentCenterId = ''B'', viewOffset = (5, 7), deletedNodes = Some [],
      timestamp = Date_now demo_runtime\<rparr>"
    by blast
  ultimately show ?thesis by blast
qed

section \<open>The newer side\<close>

text \<open>
  C7. When the newer tree has no two siblings with the same id and neither root id is in
  the deletion set, the merge yields a tree in which every node of the newer tree is
  found again, under the same path and with the same id, deleted or not; the merged tree
  has no id from elsewhere, so an id of the inputs that it lacks occurs in the older tree
  only; and a child of the older root that the newer root does not have is among the
  children of the merged root exactly when its id is not in the deletion set.
\<close>

theorem newer_side_never_pruned:
  assumes n: "tree (newerData rt cloud local) = Some n"
    and ol: "tree (olderData rt cloud local) = Some ol"
    and wf: "wf_node n"
    and live: "nid n \<notin> deletedIds rt cloud local" "nid ol \<notin> deletedIds rt cloud local"
  shows "\<exists>m. tree (mergeMindmapData rt cloud local) = Some m \<and>
           node_ids n \<subseteq> node_ids m \<and>
           (\<forall>p n'. node_at n p = Some n' \<longrightarrow> (\<exists>m'. node_at m p = Some m' \<and> nid m' = nid n')) \<and>
           node_ids m \<subseteq> node_ids n \<union> node_ids ol \<and>
           (node_ids n \<union> node_ids ol) - node_ids m \<subseteq> node_ids ol - node_ids n \<and>
           (\<forall>x\<in>set (kids ol). nid x \<notin> nid ` set (kids n) \<longrightarrow>
               (x \<in> set (kids m)) = (nid x \<notin> deletedIds rt cloud local))"
proof -
  let ?D = "deletedIds rt cloud local"
  obtain m where m: "mergeNodes (Some n) (Some ol) ?D = Some m"
    using mergeNodes_live[OF live] by auto
  then have t: "tree (mergeMindmapData rt cloud local) = Some m"
    by (simp add: tree_merge n ol)
  have sub: "node_ids n \<subseteq> node_ids m"
    using wf m by (rule newer_ids_kept)
  then have "(node_ids n \<union> node_ids ol) - node_ids m \<subseteq> node_ids ol - node_ids n"
    by blast
  moreover note sub
  moreover have "\<exists>m'. node_at m p = Some m' \<and> nid m' = nid n'" if "node_at n p = Some n'" for p n'
    using newer_preserved[OF wf m that] by blast
  moreover have "node_ids m \<subseteq> node_ids n \<union> node_ids ol"
    using wf m by (rule merged_ids_bound)
  moreover have "(x \<in> set (kids m)) = (nid x \<notin> ?D)"
    if "x \<in> set (kids ol)" "nid x \<notin> nid ` set (kids n)" for x
    using m wf that by (rule older_only_child)
  ultimately show ?thesis
    using t by blast
qed

theorem newer_side_never_pruned_witness:
  \<open>\<exists>m. tree (mergeMindmapData demo_runtime
                (snapshot [] [''{"id":"K"}''] ''root'' ''2024-01-01T00:00:00.000Z'')
                (snapshot [leaf ''K'' ''edited''] [] ''K'' ''2024-01-02T00:00:00.000Z'')) = Some m \<and>
        Ident ''K'' \<in> node_ids m \<and>
        Ident ''K'' \<in> deletedIds demo_runtime
                (snapshot [] [''{"id":"K"}''] ''root'' ''2024-01-01T00:00:00.000Z'')
                (snapshot [leaf ''K'' ''edited''] [] ''K'' ''2024-01-02T00:00:00.000Z'')\<close>
proof -
  let ?c = \<open>snapshot [] [''{"id":"K"}''] ''root'' ''2024-01-01T00:00:00.000Z''\<close>
  let ?l = "snapshot [leaf ''K'' ''edited''] [] ''K'' ''2024-01-02T00:00:00.000Z''"
  let ?n = "branch ''root'' ''Root'' [leaf ''K'' ''edited'']"
  let ?ol = "branch ''root'' ''Root'' []"
  have h1: "tree (newerData demo_runtime ?c ?l) = Some ?n"
    by (simp add: demo_eval)
  have h2: "tree (olderData demo_runtime ?c ?l) = Some ?ol"
    by (simp add: demo_eval)
  have h3: "wf_node ?n"
    by (simp add: wf_node.simps branch_def leaf_def kids_def)
  have h4: "nid ?n \<notin> deletedIds demo_runtime ?c ?l" and h5: "nid ?ol \<notin> deletedIds demo_runtime ?c ?l"
    by (simp_all add: demo_eval)
  have k: "Ident ''K'' \<in> node_ids ?n"
    by (simp add: node_ids.simps branch_def leaf_def kids_def)
  have d: "Ident ''K'' \<in> deletedIds demo_runtime ?c ?l"
    by (simp add: demo_eval)
  show ?thesis
    using newer_side_never_pruned [OF h1 h2 h3 h4 h5] k d by blast
qed

section \<open>The sync endpoint: missing data\<close>

text \<open>
  C8, the claim as stated, at a POST with an empty body against an empty store: reading
  the body throws, and the answer is the status 500 of the \<open>catch\<close>, not 400.
\<close>

theorem unreadable_body_is_server_error:
  "handleSync demo_runtime
       \<lparr>http_method = ''POST'', json = Inl ''SyntaxError: Unexpected end of JSON input''\<rparr>
       (Map.empty :: (string, int \<times> int) kv) =
     (\<lparr>status = 500, success = False,
       error = Some ''SyntaxError: Unexpected end of JSON input'', data = None\<rparr>, Map.empty)"
  by (simp add: handleSync_def)

text \<open>
  C8, as the code has it. Against a store that holds no snapshot, a POST whose body is
  read and carries no local snapshot is answered with status 400, \<open>success: false\<close> and
  the error \<open>No data provided\<close>; a POST whose body cannot be read is answered with
  status 500 and the text of the exception; in both cases the store is left as it was.
  Only a body with a local snapshot is answered with 200, and that snapshot is stored.
\<close>

theorem no_data_is_client_error:
  assumes "http_method req = ''POST''" "kv ''mindmap_data'' = None"
  shows "(json req = Inr None \<longrightarrow>
            handleSync rt req kv =
              (\<lparr>status = 400, success = False, error = Some ''No data provided'', data = None\<rparr>, kv)) \<and>
         (json req = Inl e \<longrightarrow>
            handleSync rt req kv =
              (\<lparr>status = 500, success = False, error = Some e, data = None\<rparr>, kv)) \<and>
         (json req = Inr (Some localData) \<longrightarrow>
            handleSync rt req kv =
              (\<lparr>status = 200, success = True, error = None, data = Some localData\<rparr>,
               kv(''mindmap_data'' \<mapsto> localData)))"
  using assms by (simp add: handleSync_def)

theorem no_data_is_client_error_witness:
  "handleSync demo_runtime \<lparr>http_method = ''POST'', json = Inr None\<rparr>
       (Map.empty :: (string, int \<times> int) kv) =
     (\<lparr>status = 400, success = False, error = Some ''No data provided'', data = None\<rparr>, Map.empty) \<and>
   handleSync demo_runtime \<lparr>http_method = ''POST'', json = Inl ''TypeError''\<rparr>
       (Map.empty :: (string, int \<times> int) kv) =
     (\<lparr>status = 500, success = False, error = Some ''TypeError'', data = None\<rparr>, Map.empty) \<and>
   handleSync demo_runtime
       \<lparr>http_method = ''POST'',
        json = Inr (Some (snapshot [] [] ''root'' ''2024-01-01T00:00:00.000Z''))\<rparr> Map.empty =
     (\<lparr>status = 200, success = True, error = None,
       data = Some (snapshot [] [] ''root'' ''2024-01-01T00:00:00.000Z'')\<rparr>,
      [''mindmap_data'' \<mapsto> snapshot [] [] ''root'' ''2024-01-01T00:00:00.000Z''])"
  using
    no_data_is_client_error
      [where req = "\<lparr>http_method = ''POST'', json = Inr None\<rparr>"
         and kv = "Map.empty :: (string, int \<times> int) kv" and rt = demo_runtime]
    no_data_is_client_error
      [where req = "\<lparr>http_method = ''POST'', json = Inl ''TypeError''\<rparr>"
         and kv = "Map.empty :: (string, int \<times> int) kv" and rt = demo_runtime
         and e = "''TypeError''"]
    no_data_is_client_error
      [where req = "\<lparr>http_method = ''POST'',
                     json = Inr (Some (snapshot [] [] ''root'' ''2024-01-01T00:00:00.000Z''))\<rparr>"
         and kv = "Map.empty :: (string, int \<times> int) kv" and rt = demo_runtime
         and localData = "snapshot [] [] ''root'' ''2024-01-01T00:00:00.000Z''"]
  by simp

section \<open>Unparsable deletion records\<close>

text \<open>
  C9. On snapshots whose nodes all have an id, a deletion record from which no id is
  recovered (the parse throws, or the parsed value has no \<open>id\<close>) adds no id to the
  deletion set and does not disturb the merge: an id is in the deletion set exactly when
  a record of one of the two inputs parses to it; \<open>mergeMindmapData\<close> returns the
  snapshot it would return without the malformed records, with the full union of the
  records kept; and that snapshot is the merge of the two trees under exactly the parsed
  ids, with the newer side's focus and view offset and the time of the merge. A failed
  parse is the value \<open>None\<close> of \<open>JSON_parse_id\<close>, which the loop skips.
\<close>

theorem malformed_tombstones_skipped:
  assumes "tree_ids_defined (tree cloud)" "tree_ids_defined (tree local)"
  shows "(Ident k \<in> deletedIds rt cloud local) =
           (\<exists>r \<in> set (deletedNodes_or_empty cloud) \<union> set (deletedNodes_or_empty local).
              JSON_parse_id rt r = Some (Ident k)) \<and>
         mergeMindmapData rt cloud local =
           (mergeMindmapData rt (without_malformed rt cloud) (without_malformed rt local))
             \<lparr>deletedNodes := Some (allDeletedNodes cloud local)\<rparr> \<and>
         mergeMindmapData rt cloud local =
           \<lparr>tree = mergeNodes (tree (newerData rt cloud local)) (tree (olderData rt cloud local))
                    (Ident ` {k. \<exists>r \<in> set (deletedNodes_or_empty cloud) \<union>
                                       set (deletedNodes_or_empty local).
                                  JSON_parse_id rt r = Some (Ident k)}),
            currentCenterId = currentCenterId (newerData rt cloud local),
            viewOffset = viewOffset (newerData rt cloud local),
            deletedNodes = Some (allDeletedNodes cloud local),
            timestamp = Date_now rt\<rparr>"
proof -
  let ?c = "without_malformed rt cloud" and ?l = "without_malformed rt local"
  let ?I = "Ident ` {k. \<exists>r \<in> set (deletedNodes_or_empty cloud) \<union> set (deletedNodes_or_empty local).
                          JSON_parse_id rt r = Some (Ident k)}"
  have ids: "(Ident k \<in> deletedIds rt cloud local) =
           (\<exists>r \<in> set (deletedNodes_or_empty cloud) \<union> set (deletedNodes_or_empty local).
              JSON_parse_id rt r = Some (Ident k))" for k
    by (simp add: deletedIds_char)
  have nt: "tree_ids_defined (tree (newerData rt cloud local))"
    and ot: "tree_ids_defined (tree (olderData rt cloud local))"
    using assms by (simp_all add: newerData_def olderData_def)
  have n: "newerData rt ?c ?l = without_malformed rt (newerData rt cloud local)"
    and ol: "olderData rt ?c ?l = without_malformed rt (olderData rt cloud local)"
    by (simp_all add: newerData_def olderData_def without_malformed_newer)
  have t1: "mergeNodes (tree (newerData rt cloud local)) (tree (olderData rt cloud local))
              (deletedIds rt cloud local) =
            mergeNodes (tree (newerData rt cloud local)) (tree (olderData rt cloud local))
              (deletedIds rt ?c ?l)"
    by (rule mergeNodes_defined_ids_opt[OF _ nt ot]) (simp add: without_malformed_ids)
  have t2: "mergeNodes (tree (newerData rt cloud local)) (tree (olderData rt cloud local))
              (deletedIds rt cloud local) =
            mergeNodes (tree (newerData rt cloud local)) (tree (olderData rt cloud local)) ?I"
    by (rule mergeNodes_defined_ids_opt[OF _ nt ot]) (auto simp: ids)
  have "mergeMindmapData rt cloud local =
           (mergeMindmapData rt ?c ?l)\<lparr>deletedNodes := Some (allDeletedNodes cloud local)\<rparr>"
    by (simp add: mergeMindmapData_def n ol t1)
  moreover have "mergeMindmapData rt cloud local =
           \<lparr>tree = mergeNodes (tree (newerData rt cloud local)) (tree (olderData rt cloud local)) ?I,
            currentCenterId = currentCenterId (newerData rt cloud local),
            viewOffset = viewOffset (newerData rt cloud local),
            deletedNodes = Some (allDeletedNodes cloud local),
            timestamp = Date_now rt\<rparr>"
    by (simp add: mergeMindmapData_def t2)
  ultimately show ?thesis
    using ids by blast
qed

theorem malformed_tombstones_skipped_witness:
  \<open>mergeMindmapData demo_runtime
      (snapshot [leaf ''K'' ''k'', leaf ''A'' ''a''] [''not json'', ''{}''] ''root''
         ''2024-01-01T00:00:00.000Z'')
      (snapshot [] [''{"id":"K"}'', ''null'', ''{}''] ''root'' ''2024-01-02T00:00:00.000Z'')
    = snapshot [leaf ''A'' ''a''] [''not json'', ''{}'', ''{"id":"K"}'', ''null''] ''root''
        ''2024-01-03T00:00:00.000Z''\<close>
proof -
  let ?c = \<open>snapshot [leaf ''K'' ''k'', leaf ''A'' ''a''] [''not json'', ''{}''] ''root''
         ''2024-01-01T00:00:00.000Z''\<close>
  let ?l = \<open>snapshot [] [''{"id":"K"}'', ''null'', ''{}''] ''root'' ''2024-01-02T00:00:00.000Z''\<close>
  have h1: "tree_ids_defined (tree ?c)" and h2: "tree_ids_defined (tree ?l)"
    by (simp_all add: tree_ids_defined_def ids_defined.simps snapshot_def branch_def leaf_def
        kids_def)
  have "mergeMindmapData demo_runtime ?c ?l =
          (mergeMindmapData demo_runtime (without_malformed demo_runtime ?c)
              (without_malformed demo_runtime ?l))
            \<lparr>deletedNodes := Some (allDeletedNodes ?c ?l)\<rparr>"
    using malformed_tombstones_skipped [OF h1 h2, of "''K''" demo_runtime] by blast
  then show ?thesis
    by (simp add: without_malformed_def has_id_def mergeMindmapData_def mergeNodes_both
        merge_children_def merge_step_def childMap_def demo_eval)
qed

section \<open>The timestamp of the result\<close>

text \<open>
  C10. The timestamp of the merged snapshot is the one the runtime generates when the
  merge runs, whatever the timestamps of the two inputs are.
\<close>

theorem fresh_timestamp:
  "timestamp (mergeMindmapData rt cloud local) = Date_now rt"
  by (simp add: mergeMindmapData_def)

theorem fresh_timestamp_witness:
  "timestamp
     (mergeMindmapData demo_runtime
        (snapshot [] [] ''root'' ''2024-01-01T00:00:00.000Z'')
        (snapshot [] [] ''root'' ''2024-01-02T00:00:00.000Z'')) = ''2024-01-03T00:00:00.000Z''"
  using fresh_timestamp
    [of demo_runtime "snapshot [] [] ''root'' ''2024-01-01T00:00:00.000Z''"
        "snapshot [] [] ''root'' ''2024-01-02T00:00:00.000Z''"]
  by (simp add: demo_runtime_def)

end
